theory Spec2Isabelle
  imports Main
begin

section \<open>Storage: the tables the room controller reads and writes\<close>

text \<open>
  The controller (Server/src/controllers/roomController.ts) is a set of request handlers,
  each a short sequence of SQL statements. A table is the list of its rows in insertion
  order, a statement is a function on the tables, and a handler returns its HTTP answer
  together with the tables it leaves behind. Columns keep their SQL names.
  The statements are taken to run as written on these tables; the handlers' catch
  blocks, which answer 500 when the driver throws, are modelled where the statement
  itself decides the fault (see \<open>endGame\<close>).
\<close>

type_synonym user_id = nat

record room =
  code :: string
  status :: string
  turn_player_id :: "user_id option"

record room_scoped =
  room_code :: string

record player = room_scoped +
  user_id :: user_id
  team :: "nat option"
  host :: bool
  in_game :: bool

record card_row = room_scoped +
  number :: nat
  seed :: string

record deck_row = card_row +
  deck_id :: nat

record hand_row = card_row +
  player_id :: user_id

record db =
  rooms :: "room list"
  players :: "player list"
  deck :: "deck_row list"
  hand_cards :: "hand_row list"
  table_cards :: "hand_row list"
  next_deck_id :: nat

definition empty_db :: db where
  "empty_db = \<lparr>rooms = [], players = [], deck = [], hand_cards = [], table_cards = [],
     next_deck_id = 1\<rparr>"

text \<open>
  \<open>deck_id\<close> is the column \<open>deck.id\<close>: \<open>startGame\<close> inserts deck rows without it and
  \<open>drawCard\<close> deletes by it, so the storage assigns it; \<open>next_deck_id\<close> is the counter it
  assigns from.
\<close>

section \<open>HTTP answers and JavaScript values\<close>

datatype body =
    Text string
  | JsonString string
  | JsonNumber nat
  | JsonCard nat string
  | JsonDeckRow deck_row

type_synonym response = "nat \<times> body"

text \<open>
  The values \<open>passTurn\<close> compares with \<open>===\<close>. Strict equality never converts:
  values of different kinds are unequal, numbers are compared by value, and an object or
  an array is equal only to the very same object. The arrays and rows compared here are
  fresh query results, so against any other value the answer is false.
\<close>

datatype jsval =
    JNull
  | JNumber nat
  | JObject "(string \<times> jsval) list"
  | JArray "jsval list"

fun strict_eq :: "jsval \<Rightarrow> jsval \<Rightarrow> bool" where
  "strict_eq JNull JNull = True"
| "strict_eq (JNumber a) (JNumber b) = (a = b)"
| "strict_eq _ _ = False"

fun js_of_id :: "user_id option \<Rightarrow> jsval" where
  "js_of_id None = JNull"
| "js_of_id (Some u) = JNumber u"

section \<open>The Authorization header\<close>

text \<open>\<open>split\<close> of JavaScript at every space: \<open>"".split(" ")\<close> is \<open>[""]\<close>.\<close>

fun split_sp :: "string \<Rightarrow> string list" where
  "split_sp [] = [[]]"
| "split_sp (c # cs) =
     (if c = CHR '' '' then [] # split_sp cs
      else (case split_sp cs of [] \<Rightarrow> [[c]] | w # ws \<Rightarrow> (c # w) # ws))"

text \<open>
  \<open>req.headers.authorization?.split(" ")[1]\<close>, with the test \<open>!token\<close> folded in:
  \<open>None\<close> when the header is absent, has no second piece, or the piece is empty.
\<close>

fun token_of :: "string option \<Rightarrow> string option" where
  "token_of None = None"
| "token_of (Some h) =
     (case split_sp h of
        _ # t # _ \<Rightarrow> (if t = [] then None else Some t)
      | _ \<Rightarrow> None)"

text \<open>
  The prologue shared by the handlers that identify the caller. \<open>getUserIdFromToken\<close>
  (utils/getIdByToken) is a parameter; \<open>!user_id\<close> holds for no id and for the id 0.
\<close>

definition authenticate :: "(string \<Rightarrow> user_id option) \<Rightarrow> string option \<Rightarrow> response + user_id" where
  "authenticate getUserIdFromToken hdr =
     (case token_of hdr of
        None \<Rightarrow> Inl (401, Text ''Authorization token is missing'')
      | Some token \<Rightarrow>
          (case getUserIdFromToken token of
             None \<Rightarrow> Inl (401, Text ''Invalid or expired token'')
           | Some u \<Rightarrow>
               if u = 0 then Inl (401, Text ''Invalid or expired token'') else Inr u))"

section \<open>Room directory\<close>

definition isCodeUnique :: "db \<Rightarrow> string \<Rightarrow> bool" where
  \<comment> \<open>Modelled from the spec: utils/codeRoom is not among the sources; the spec has the
      generated code checked against the existing rows of \<open>rooms\<close>.\<close>
  "isCodeUnique d c = (c \<notin> set (map code (rooms d)))"

text \<open>
  \<open>while (!unique) { code = generateCode(); unique = await isCodeUnique(code); }\<close>:
  the list holds the successive results of \<open>generateCode\<close>; the loop is still running
  (\<open>None\<close>) when none of them is unique.
\<close>

fun pick_code :: "db \<Rightarrow> string list \<Rightarrow> string option" where
  "pick_code d [] = None"
| "pick_code d (c # cs) = (if isCodeUnique d c then Some c else pick_code d cs)"

definition createRoom ::
  "(string \<Rightarrow> user_id option) \<Rightarrow> string list \<Rightarrow> string option \<Rightarrow> db \<Rightarrow> (response \<times> db) option" where
  \<comment> \<open>Modelled from the spec: the columns the two inserts leave out take the defaults
      the spec gives (status \<open>waiting\<close>, no team, not in game).\<close>
  "createRoom getUserIdFromToken generated hdr d =
     (case authenticate getUserIdFromToken hdr of
        Inl r \<Rightarrow> Some (r, d)
      | Inr u \<Rightarrow>
          (case pick_code d generated of
             None \<Rightarrow> None
           | Some c \<Rightarrow>
               Some ((200, JsonString c),
                 d\<lparr>rooms := rooms d @ [\<lparr>code = c, status = ''waiting'', turn_player_id = Some u\<rparr>],
                   players := players d @
                     [\<lparr>room_code = c, user_id = u, team = None, host = True, in_game = False\<rparr>]\<rparr>)))"

definition deleteRoom :: "string option \<Rightarrow> string \<Rightarrow> db \<Rightarrow> response \<times> db" where
  "deleteRoom hdr c d =
     (case token_of hdr of
        None \<Rightarrow> ((401, Text ''Authorization token is missing''), d)
      | Some token \<Rightarrow>
          ((200, Text ''Room deleted''), d\<lparr>rooms := filter (\<lambda>r. code r \<noteq> c) (rooms d)\<rparr>))"

section \<open>Membership\<close>

definition members :: "db \<Rightarrow> string \<Rightarrow> player list" where
  "members d c = filter (\<lambda>p. room_code p = c) (players d)"

definition joinRoom ::
  "(string \<Rightarrow> user_id option) \<Rightarrow> string option \<Rightarrow> string \<Rightarrow> db \<Rightarrow> response \<times> db" where
  "joinRoom getUserIdFromToken hdr c d =
     (case authenticate getUserIdFromToken hdr of
        Inl r \<Rightarrow> (r, d)
      | Inr u \<Rightarrow>
          (let playerCount = length (members d c);
               t = (if playerCount mod 2 = 0 then 1 else 2)
           in ((200, Text ''Player joined room''),
               d\<lparr>players := players d @
                 [\<lparr>room_code = c, user_id = u, team = Some t, host = False, in_game = False\<rparr>]\<rparr>)))"

definition leaveRoom ::
  "(string \<Rightarrow> user_id option) \<Rightarrow> string option \<Rightarrow> string \<Rightarrow> db \<Rightarrow> response \<times> db" where
  "leaveRoom getUserIdFromToken hdr c d =
     (case authenticate getUserIdFromToken hdr of
        Inl r \<Rightarrow> (r, d)
      | Inr u \<Rightarrow>
          ((200, Text ''Player left room''),
           d\<lparr>players := filter (\<lambda>p. \<not> (room_code p = c \<and> user_id p = u)) (players d)\<rparr>))"

definition giveUp ::
  "(string \<Rightarrow> user_id option) \<Rightarrow> string option \<Rightarrow> string \<Rightarrow> db \<Rightarrow> response \<times> db" where
  "giveUp getUserIdFromToken hdr c d =
     (case authenticate getUserIdFromToken hdr of
        Inl r \<Rightarrow> (r, d)
      | Inr u \<Rightarrow>
          (let d1 = d\<lparr>players :=
                 map (\<lambda>p. if room_code p = c \<and> user_id p = u then p\<lparr>in_game := False\<rparr> else p)
                   (players d)\<rparr>;
               d2 = d1\<lparr>players :=
                 filter (\<lambda>p. \<not> (room_code p = c \<and> user_id p = u)) (players d1)\<rparr>
           in ((200, JsonNumber u), d2)))"

section \<open>Deck, hands and table\<close>

definition generateDeck :: "nat list \<Rightarrow> string list \<Rightarrow> (nat \<times> string) list" where
  \<comment> \<open>Modelled from the spec: utils/generateDeck is not among the sources; the spec has it
      yield the cross-product of the ranks and the suits, which are parameters here.\<close>
  "generateDeck ranks seeds = concat (map (\<lambda>s. map (\<lambda>n. (n, s)) ranks) seeds)"

text \<open>The loop of \<open>startGame\<close>: one insert per card, each row given the next id.\<close>

fun insert_deck :: "string \<Rightarrow> (nat \<times> string) list \<Rightarrow> db \<Rightarrow> db" where
  "insert_deck c [] d = d"
| "insert_deck c (k # ks) d =
     insert_deck c ks
       (d\<lparr>deck := deck d @ [\<lparr>room_code = c, number = fst k, seed = snd k, deck_id = next_deck_id d\<rparr>],
          next_deck_id := Suc (next_deck_id d)\<rparr>)"

definition startGame ::
  "(string \<Rightarrow> user_id option) \<Rightarrow> (nat \<times> string) list \<Rightarrow> string option \<Rightarrow> string \<Rightarrow> db
     \<Rightarrow> response \<times> db" where
  "startGame getUserIdFromToken generated hdr c d =
     (case authenticate getUserIdFromToken hdr of
        Inl r \<Rightarrow> (r, d)
      | Inr u \<Rightarrow>
          (let d1 = d\<lparr>players :=
                 map (\<lambda>p. if room_code p = c then p\<lparr>in_game := True\<rparr> else p) (players d)\<rparr>;
               d2 = d1\<lparr>rooms :=
                 map (\<lambda>r. if code r = c then r\<lparr>status := ''in_progress''\<rparr> else r) (rooms d1)\<rparr>;
               d3 = insert_deck c generated d2
           in ((200, Text (''Game started for room with CODE: '' @ c)), d3)))"

text \<open>
  \<open>endGame\<close> uses its one request parameter twice: as \<open>players.room_code\<close> in the
  delete and as \<open>rooms.id\<close> in the update. No other statement of the controller names a
  column \<open>rooms.id\<close> and the table's declaration is not among the sources, so the column
  is a parameter: \<open>None\<close> when the table has no such column (the update throws and the
  handler answers 500, the delete already done), \<open>Some f\<close> when it has, \<open>f r\<close> being the
  value of the column in row \<open>r\<close> as the request would spell it.
\<close>

definition endGame :: "(room \<Rightarrow> string) option \<Rightarrow> string \<Rightarrow> db \<Rightarrow> response \<times> db" where
  "endGame rooms_id ident d =
     (let d1 = d\<lparr>hand_cards :=
            filter (\<lambda>h. player_id h \<notin> set (map user_id (members d ident))) (hand_cards d)\<rparr>
      in (case rooms_id of
            None \<Rightarrow> ((500, Text ''An error occurred''), d1)
          | Some f \<Rightarrow>
              ((200, Text ''Game ended successfully''),
               d1\<lparr>rooms :=
                 map (\<lambda>r. if f r = ident then r\<lparr>status := ''ended''\<rparr> else r) (rooms d1)\<rparr>)))"

text \<open>
  \<open>playCard\<close> takes the card from the request path; \<open>n\<close> and \<open>s\<close> are the values
  the storage writes into and compares with the columns \<open>number\<close> and \<open>seed\<close>. Nothing
  is read before the insert.
\<close>

definition playCard ::
  "(string \<Rightarrow> user_id option) \<Rightarrow> string option \<Rightarrow> string \<Rightarrow> nat \<Rightarrow> string \<Rightarrow> db
     \<Rightarrow> response \<times> db" where
  "playCard getUserIdFromToken hdr c n s d =
     (case authenticate getUserIdFromToken hdr of
        Inl r \<Rightarrow> (r, d)
      | Inr u \<Rightarrow>
          (let d1 = d\<lparr>table_cards := table_cards d @
                 [\<lparr>room_code = c, number = n, seed = s, player_id = u\<rparr>]\<rparr>;
               d2 = d1\<lparr>hand_cards :=
                 filter (\<lambda>h. \<not> (room_code h = c \<and> player_id h = u \<and> number h = n \<and> seed h = s))
                   (hand_cards d1)\<rparr>
           in ((200, JsonCard n s), d2)))"

text \<open>
  \<open>ORDER BY RAND() LIMIT 1\<close>: the storage's random choice is the parameter \<open>rnd\<close>,
  read as a position among the room's deck rows.
\<close>

definition drawCard ::
  "(string \<Rightarrow> user_id option) \<Rightarrow> nat \<Rightarrow> string option \<Rightarrow> string \<Rightarrow> db \<Rightarrow> response \<times> db" where
  "drawCard getUserIdFromToken rnd hdr c d =
     (case authenticate getUserIdFromToken hdr of
        Inl r \<Rightarrow> (r, d)
      | Inr u \<Rightarrow>
          (let rows = filter (\<lambda>k. room_code k = c) (deck d)
           in if length rows > 0 then
                (let drawnCard = rows ! (rnd mod length rows);
                     d1 = d\<lparr>hand_cards := hand_cards d @
                       [\<lparr>room_code = c, number = number drawnCard, seed = seed drawnCard,
                         player_id = u\<rparr>]\<rparr>;
                     d2 = d1\<lparr>deck := filter (\<lambda>k. deck_id k \<noteq> deck_id drawnCard) (deck d1)\<rparr>
                 in ((200, JsonDeckRow drawnCard), d2))
              else ((404, Text ''No cards left in the deck''), d)))"

section \<open>Turn rotation\<close>

text \<open>
  The \<open>for\<close> loop of \<open>passTurn\<close>: the first position \<open>i\<close>, from \<open>i\<close> on, whose
  \<open>user_id\<close> is strictly equal to the stored turn holder.
\<close>

function scan_turn :: "user_id list \<Rightarrow> user_id option \<Rightarrow> nat \<Rightarrow> nat option" where
  "scan_turn rows t i =
     (if i < length rows then
        (if strict_eq (JNumber (rows ! i)) (js_of_id t) then Some i
         else scan_turn rows t (Suc i))
      else None)"
  by pat_completeness auto
termination
  by (relation "measure (\<lambda>(rows, t, i). length rows - i)") auto

declare scan_turn.simps [simp del]

definition set_turn :: "string \<Rightarrow> user_id \<Rightarrow> db \<Rightarrow> db" where
  "set_turn c u d =
     d\<lparr>rooms := map (\<lambda>r. if code r = c then r\<lparr>turn_player_id := Some u\<rparr> else r) (rooms d)\<rparr>"

definition passTurn ::
  "(string \<Rightarrow> user_id option) \<Rightarrow> string option \<Rightarrow> string \<Rightarrow> db \<Rightarrow> response \<times> db" where
  "passTurn getUserIdFromToken hdr c d =
     (case authenticate getUserIdFromToken hdr of
        Inl r \<Rightarrow> (r, d)
      | Inr caller \<Rightarrow>
          (let rows = map user_id (members d c) in
           if length rows = 0 then ((404, Text ''Room not found''), d)
           else
             (let turnPlayerResult = map turn_player_id (filter (\<lambda>r. code r = c) (rooms d)) in
              if length turnPlayerResult = 0 then ((404, Text ''Room not found''), d)
              else if strict_eq
                        (JArray (map (\<lambda>t. JObject [(''turn_player_id'', js_of_id t)]) turnPlayerResult))
                        (JNumber caller)
                   then ((403, Text ''It's not your turn''), d)
              else
                (let holder = hd turnPlayerResult in
                 case scan_turn rows holder 0 of
                   Some i \<Rightarrow>
                     ((200, Text ''Turn passed''), set_turn c (rows ! ((i + 1) mod length rows)) d)
                 | None \<Rightarrow>
                     ((200, Text ''Turn passed''), set_turn c (hd rows) d)))))"

section \<open>Observations and scenarios\<close>

text \<open>The stored turn holder as \<open>passTurn\<close> reads it: row 0 of the query on \<open>rooms\<close>.\<close>

definition turn_holder :: "db \<Rightarrow> string \<Rightarrow> user_id option" where
  "turn_holder d c =
     (case filter (\<lambda>r. code r = c) (rooms d) of [] \<Rightarrow> None | r # _ \<Rightarrow> turn_player_id r)"

text \<open>What the claims look at: a room's deck, a player's hand in a room, a room's table.\<close>

definition room_deck :: "db \<Rightarrow> string \<Rightarrow> deck_row list" where
  "room_deck d c = filter (\<lambda>k. room_code k = c) (deck d)"

definition hand_of :: "db \<Rightarrow> string \<Rightarrow> user_id \<Rightarrow> hand_row list" where
  "hand_of d c u = filter (\<lambda>h. room_code h = c \<and> player_id h = u) (hand_cards d)"

definition table_of :: "db \<Rightarrow> string \<Rightarrow> hand_row list" where
  "table_of d c = filter (\<lambda>h. room_code h = c) (table_cards d)"

definition card_face :: "'a card_row_scheme \<Rightarrow> nat \<times> string" where
  "card_face k = (number k, seed k)"

text \<open>The key of \<open>deck\<close>: ids are pairwise different and below the counter.\<close>

definition deck_ok :: "db \<Rightarrow> bool" where
  "deck_ok d =
     (distinct (map deck_id (deck d)) \<and> list_all (\<lambda>k. deck_id k < next_deck_id d) (deck d))"

text \<open>A run of join requests on one room, each on the tables the last one left.\<close>

definition joins :: "(string \<Rightarrow> user_id option) \<Rightarrow> string option list \<Rightarrow> string \<Rightarrow> db \<Rightarrow> db" where
  "joins g hdrs c d = foldl (\<lambda>d h. snd (joinRoom g h c d)) d hdrs"

text \<open>
  The rows the loop of \<open>startGame\<close> appends when the counter stands at \<open>n\<close>, written
  out to state what \<open>insert_deck\<close> leaves in \<open>deck\<close>.
\<close>

fun new_rows :: "string \<Rightarrow> (nat \<times> string) list \<Rightarrow> nat \<Rightarrow> deck_row list" where
  "new_rows c [] n = []"
| "new_rows c (k # ks) n =
     \<lparr>room_code = c, number = fst k, seed = snd k, deck_id = n\<rparr> # new_rows c ks (Suc n)"

text \<open>
  The requests the host invariant is about, as one type, and the tables a request
  leaves; \<open>leaves\<close> marks the two that delete a membership row.
\<close>

datatype request =
    JoinRoom "string option" string
  | LeaveRoom "string option" string
  | GiveUp "string option" string
  | StartGame "(nat \<times> string) list" "string option" string
  | EndGame "(room \<Rightarrow> string) option" string
  | PassTurn "string option" string
  | DrawCard nat "string option" string
  | PlayCard "string option" string nat string

fun handle :: "(string \<Rightarrow> user_id option) \<Rightarrow> request \<Rightarrow> db \<Rightarrow> db" where
  "handle g (JoinRoom hdr c) d = snd (joinRoom g hdr c d)"
| "handle g (LeaveRoom hdr c) d = snd (leaveRoom g hdr c d)"
| "handle g (GiveUp hdr c) d = snd (giveUp g hdr c d)"
| "handle g (StartGame gen hdr c) d = snd (startGame g gen hdr c d)"
| "handle g (EndGame rooms_id ident) d = snd (endGame rooms_id ident d)"
| "handle g (PassTurn hdr c) d = snd (passTurn g hdr c d)"
| "handle g (DrawCard rnd hdr c) d = snd (drawCard g rnd hdr c d)"
| "handle g (PlayCard hdr c n s) d = snd (playCard g hdr c n s d)"

fun leaves :: "request \<Rightarrow> bool" where
  "leaves (LeaveRoom hdr c) = True"
| "leaves (GiveUp hdr c) = True"
| "leaves rq = False"

definition host_count :: "db \<Rightarrow> string \<Rightarrow> nat" where
  "host_count d c = length (filter host (members d c))"

definition one_host :: "db \<Rightarrow> bool" where
  "one_host d = list_all (\<lambda>p. host_count d (room_code p) = 1) (players d)"

text \<open>\<open>n\<close> requests to \<open>passTurn\<close> in a row, each on the tables the last one left.\<close>

definition passes ::
  "(string \<Rightarrow> user_id option) \<Rightarrow> string option \<Rightarrow> string \<Rightarrow> nat \<Rightarrow> db \<Rightarrow> db" where
  "passes g hdr c n d = ((\<lambda>d. snd (passTurn g hdr c d)) ^^ n) d"

text \<open>
  A token table for the scenarios, and the room \<open>AB12\<close> as the handlers build it from
  empty tables: created by one user, then joined by others in the order given.
\<close>

definition demo_tokens :: "string \<Rightarrow> user_id option" where
  "demo_tokens t =
     (if t = ''a'' then Some 1 else if t = ''b'' then Some 2
      else if t = ''c'' then Some 3 else if t = ''d'' then Some 4 else None)"

definition room_of :: "string \<Rightarrow> string list \<Rightarrow> db" where
  "room_of creator joiners =
     foldl (\<lambda>d t. snd (joinRoom demo_tokens (Some (''Bearer '' @ t)) ''AB12'' d))
       (case createRoom demo_tokens [''AB12''] (Some (''Bearer '' @ creator)) empty_db of
          None \<Rightarrow> empty_db | Some (r, d) \<Rightarrow> d)
       joiners"

definition abc_room :: db where
  "abc_room = room_of ''a'' [''b'', ''c'']"

definition dup_room :: db where
  "dup_room = room_of ''a'' [''b'', ''a'']"

text \<open>
  The scenario of the spec: four players in \<open>AB12\<close>, the game started with a deck of
  ten ranks in four suits, one card drawn by the second player.
\<close>

definition demo_deck :: "(nat \<times> string) list" where
  "demo_deck =
     generateDeck [1, 2, 3, 4, 5, 6, 7, 8, 9, 10] [''bastoni'', ''coppe'', ''denari'', ''spade'']"

definition four_room :: db where
  "four_room = room_of ''a'' [''b'', ''c'', ''d'']"

definition started_room :: db where
  "started_room = snd (startGame demo_tokens demo_deck (Some ''Bearer a'') ''AB12'' four_room)"

definition drawn_room :: db where
  "drawn_room = snd (drawCard demo_tokens 7 (Some ''Bearer b'') ''AB12'' started_room)"

definition created_room :: db where
  "created_room = room_of ''a'' []"

text \<open>
  A second room \<open>CD34\<close> beside \<open>AB12\<close>: created by user 2, joined by user 1 (the
  creator of \<open>AB12\<close>), started, and one card drawn there by user 1.
\<close>

definition two_rooms :: db where
  "two_rooms =
     snd (drawCard demo_tokens 0 (Some ''Bearer a'') ''CD34''
       (snd (startGame demo_tokens demo_deck (Some ''Bearer b'') ''CD34''
         (snd (joinRoom demo_tokens (Some ''Bearer a'') ''CD34''
           (case createRoom demo_tokens [''CD34''] (Some ''Bearer b'') (room_of ''a'' []) of
              None \<Rightarrow> empty_db | Some (r, d) \<Rightarrow> d))))))"

text \<open>The room \<open>AB12\<close> of users 1 and 2 after its creator has left.\<close>

definition host_left_room :: db where
  "host_left_room = snd (leaveRoom demo_tokens (Some ''Bearer a'') ''AB12'' (room_of ''a'' [''b'']))"


section \<open>Facts about the prologue and the scan\<close>

lemma authenticate_Inl: "authenticate g hdr = Inl r \<Longrightarrow> fst r = 401"
  by (auto simp: authenticate_def split: option.splits if_splits)

lemma scan_turn_None [simp]: "scan_turn rows None i = None"
  by (induction rows "None :: user_id option" i rule: scan_turn.induct)
    (simp add: scan_turn.simps)

lemma scan_turn_first:
  "i \<le> k \<Longrightarrow> k < length rows \<Longrightarrow> rows ! k = t \<Longrightarrow> \<forall>j. i \<le> j \<and> j < k \<longrightarrow> rows ! j \<noteq> t
     \<Longrightarrow> scan_turn rows (Some t) i = Some k"
proof (induction rows "Some t" i rule: scan_turn.induct)
  case (1 rows i)
  show ?case
  proof (cases "i = k")
    case True
    with 1(3,4) show ?thesis by (simp add: scan_turn.simps)
  next
    case False
    with 1(2) have lt: "i < k" by simp
    with 1(5) have ne: "rows ! i \<noteq> t" by simp
    have "scan_turn rows (Some t) (Suc i) = Some k"
      using 1(1) lt ne 1(3,4,5) by simp
    with lt ne 1(3) show ?thesis by (simp add: scan_turn.simps)
  qed
qed

lemma scan_turn_absent:
  "\<forall>j. i \<le> j \<and> j < length rows \<longrightarrow> rows ! j \<noteq> t \<Longrightarrow> scan_turn rows (Some t) i = None"
proof (induction rows "Some t" i rule: scan_turn.induct)
  case (1 rows i)
  show ?case
  proof (cases "i < length rows")
    case True
    with 1(2) have ne: "rows ! i \<noteq> t" by simp
    have "scan_turn rows (Some t) (Suc i) = None" using 1(1) True ne 1(2) by simp
    with True ne show ?thesis by (simp add: scan_turn.simps)
  next
    case False
    then show ?thesis by (simp add: scan_turn.simps)
  qed
qed

section \<open>Turn rotation\<close>

lemma passTurn_authenticated:
  "authenticate g hdr = Inr u \<Longrightarrow> members d c \<noteq> [] \<Longrightarrow> c \<in> set (map code (rooms d)) \<Longrightarrow>
   passTurn g hdr c d =
     ((200, Text ''Turn passed''),
      set_turn c
        (case scan_turn (map user_id (members d c)) (turn_holder d c) 0 of
           Some i \<Rightarrow> map user_id (members d c) ! ((i + 1) mod length (members d c))
         | None \<Rightarrow> hd (map user_id (members d c))) d)"
  by (auto simp add: passTurn_def Let_def filter_empty_conv turn_holder_def hd_map
      split: option.split list.split)

lemma turn_holder_set_turn:
  assumes "c \<in> set (map code (rooms d))"
  shows "turn_holder (set_turn c x d) c = Some x"
proof -
  from assms obtain r rs where f: "filter (\<lambda>r. code r = c) (rooms d) = r # rs"
    by (cases "filter (\<lambda>r. code r = c) (rooms d)") (auto simp: filter_empty_conv)
  have "filter (\<lambda>r. code r = c)
          (map (\<lambda>r. if code r = c then r\<lparr>turn_player_id := Some x\<rparr> else r) (rooms d))
        = map (\<lambda>r. r\<lparr>turn_player_id := Some x\<rparr>) (filter (\<lambda>r. code r = c) (rooms d))"
    by (induction "rooms d" arbitrary: d) (auto simp: filter_map comp_def)
  with f show ?thesis by (simp add: turn_holder_def set_turn_def)
qed

lemma members_set_turn [simp]: "members (set_turn c x d) c' = members d c'"
  by (simp add: members_def set_turn_def)

lemma codes_set_turn [simp]: "map code (rooms (set_turn c x d)) = map code (rooms d)"
  by (simp add: set_turn_def comp_def cong: map_cong)

lemma passTurn_first_index:
  assumes "authenticate g hdr = Inr u" and "members d c \<noteq> []" and "c \<in> set (map code (rooms d))"
    and "ps = map user_id (members d c)"
    and "i < length ps" and "turn_holder d c = Some (ps ! i)" and "ps ! i \<notin> set (take i ps)"
  shows "passTurn g hdr c d =
           ((200, Text ''Turn passed''), set_turn c (ps ! ((i + 1) mod length ps)) d)"
proof -
  have "\<forall>j. 0 \<le> j \<and> j < i \<longrightarrow> ps ! j \<noteq> ps ! i"
    using assms(5,7) by (auto simp: in_set_conv_nth)
  then have "scan_turn ps (Some (ps ! i)) 0 = Some i"
    using assms(5) by (intro scan_turn_first) auto
  then show ?thesis
    using passTurn_authenticated [OF assms(1,2,3)] assms(4,6) by simp
qed

lemma passTurn_holder_absent:
  assumes "authenticate g hdr = Inr u" and "members d c \<noteq> []" and "c \<in> set (map code (rooms d))"
    and "ps = map user_id (members d c)"
    and "\<forall>t. turn_holder d c = Some t \<longrightarrow> t \<notin> set ps"
  shows "passTurn g hdr c d = ((200, Text ''Turn passed''), set_turn c (hd ps) d)"
proof (cases "turn_holder d c")
  case None
  then show ?thesis using passTurn_authenticated [OF assms(1,2,3)] assms(4) by simp
next
  case (Some t)
  with assms(5) have "t \<notin> set ps" by simp
  then have "scan_turn ps (Some t) 0 = None"
    by (intro scan_turn_absent) auto
  then show ?thesis using passTurn_authenticated [OF assms(1,2,3)] assms(4) Some by simp
qed

lemma distinct_first: "distinct ps \<Longrightarrow> i < length ps \<Longrightarrow> ps ! i \<notin> set (take i ps)"
  by (auto simp: in_set_conv_nth nth_eq_iff_index_eq)

lemma passes_ABC:
  assumes "authenticate g hdr = Inr u" and "c \<in> set (map code (rooms d))"
    and "map user_id (members d c) = [A, B, C]" and "distinct [A, B, C]"
    and "turn_holder d c = Some A"
  shows "map (\<lambda>n. turn_holder (passes g hdr c n d) c) [0, 1, 2, 3]
           = [Some A, Some B, Some C, Some A]"
proof -
  let ?ok = "(200, Text ''Turn passed'')"
  let ?d1 = "set_turn c B d"
  let ?d2 = "set_turn c C ?d1"
  have m: "members d c \<noteq> []" using assms(3) by auto
  have p1: "passTurn g hdr c d = (?ok, ?d1)"
    using passTurn_first_index [OF assms(1) m assms(2) assms(3)[symmetric], of 0] assms(5)
    by simp
  have p2: "passTurn g hdr c ?d1 = (?ok, ?d2)"
    using passTurn_first_index [OF assms(1), of ?d1 c "[A, B, C]" 1] m assms(2,3,4)
      turn_holder_set_turn [OF assms(2), of B] by simp
  have p3: "passTurn g hdr c ?d2 = (?ok, set_turn c A ?d2)"
    using passTurn_first_index [OF assms(1), of ?d2 c "[A, B, C]" 2] m assms(2,3,4)
      turn_holder_set_turn [of c ?d1 C] by simp
  show ?thesis
    using p1 p2 p3 assms(2,5) turn_holder_set_turn [of c ?d1 C]
      turn_holder_set_turn [OF assms(2), of B] turn_holder_set_turn [of c ?d2 A]
    by (simp add: passes_def numeral_3_eq_3 numeral_2_eq_2)
qed

text \<open>
  Claim C1, as amended. For an authenticated caller and a room that has a row and a
  non-empty member list \<open>ps\<close> (in storage order): if the stored turn holder is \<open>ps ! i\<close>
  and \<open>i\<close> is the first position at which that user occurs, \<open>passTurn\<close> answers
  "Turn passed" and stores \<open>ps ! ((i + 1) mod length ps)\<close> as the turn holder; when no
  user occurs twice in \<open>ps\<close> this holds for every position \<open>i\<close>; if the stored turn holder
  is not among the members the first member is stored; and with three different members
  \<open>[A, B, C]\<close> and the turn at \<open>A\<close>, the turn holders seen before and after three passes
  in a row are \<open>A, B, C, A\<close>.
\<close>

theorem passTurn_rotation:
  assumes "authenticate g hdr = Inr u" and "members d c \<noteq> []" and "c \<in> set (map code (rooms d))"
    and "ps = map user_id (members d c)"
  shows "(i < length ps \<and> turn_holder d c = Some (ps ! i) \<and> ps ! i \<notin> set (take i ps) \<longrightarrow>
            passTurn g hdr c d =
              ((200, Text ''Turn passed''), set_turn c (ps ! ((i + 1) mod length ps)) d) \<and>
            turn_holder (snd (passTurn g hdr c d)) c = Some (ps ! ((i + 1) mod length ps)))
       \<and> (distinct ps \<and> i < length ps \<and> turn_holder d c = Some (ps ! i) \<longrightarrow>
            turn_holder (snd (passTurn g hdr c d)) c = Some (ps ! ((i + 1) mod length ps)))
       \<and> ((\<forall>t. turn_holder d c = Some t \<longrightarrow> t \<notin> set ps) \<longrightarrow>
            passTurn g hdr c d = ((200, Text ''Turn passed''), set_turn c (hd ps) d) \<and>
            turn_holder (snd (passTurn g hdr c d)) c = Some (hd ps))
       \<and> (ps = [A, B, C] \<and> distinct ps \<and> turn_holder d c = Some A \<longrightarrow>
            map (\<lambda>n. turn_holder (passes g hdr c n d) c) [0, 1, 2, 3]
              = [Some A, Some B, Some C, Some A])"
proof -
  have first: "turn_holder (snd (passTurn g hdr c d)) c = Some (ps ! ((i + 1) mod length ps))
      \<and> passTurn g hdr c d
          = ((200, Text ''Turn passed''), set_turn c (ps ! ((i + 1) mod length ps)) d)"
    if "i < length ps" "turn_holder d c = Some (ps ! i)" "ps ! i \<notin> set (take i ps)"
    using passTurn_first_index [OF assms that] turn_holder_set_turn [OF assms(3)] by simp
  have absent: "turn_holder (snd (passTurn g hdr c d)) c = Some (hd ps)
      \<and> passTurn g hdr c d = ((200, Text ''Turn passed''), set_turn c (hd ps) d)"
    if "\<forall>t. turn_holder d c = Some t \<longrightarrow> t \<notin> set ps"
    using passTurn_holder_absent [OF assms that] turn_holder_set_turn [OF assms(3)] by simp
  have abc: "map (\<lambda>n. turn_holder (passes g hdr c n d) c) [0, 1, 2, 3]
              = [Some A, Some B, Some C, Some A]"
    if "ps = [A, B, C]" "distinct ps" "turn_holder d c = Some A"
    using passes_ABC [OF assms(1,3), of A B C] that assms(4) by simp
  show ?thesis using first absent abc distinct_first by blast
qed

theorem passTurn_rotation_witness:
  "authenticate demo_tokens (Some ''Bearer a'') = Inr 1
   \<and> members abc_room ''AB12'' \<noteq> []
   \<and> ''AB12'' \<in> set (map code (rooms abc_room))
   \<and> map user_id (members abc_room ''AB12'') = [1, 2, 3]
   \<and> turn_holder abc_room ''AB12'' = Some 1
   \<and> turn_holder (snd (passTurn demo_tokens (Some ''Bearer a'') ''AB12'' abc_room)) ''AB12''
       = Some 2
   \<and> map (\<lambda>n. turn_holder (passes demo_tokens (Some ''Bearer a'') ''AB12'' n abc_room) ''AB12'')
       [0, 1, 2, 3] = [Some 1, Some 2, Some 3, Some 1]"
proof -
  have a: "authenticate demo_tokens (Some ''Bearer a'') = Inr 1" by code_simp
  have m: "members abc_room ''AB12'' \<noteq> []" by code_simp
  have r: "''AB12'' \<in> set (map code (rooms abc_room))" by code_simp
  have ps: "[1, 2, 3] = map user_id (members abc_room ''AB12'')" by code_simp
  have t: "turn_holder abc_room ''AB12'' = Some 1" by code_simp
  from passTurn_rotation [OF a m r ps, of 0 1 2 3] t a m r ps [symmetric]
    turn_holder_set_turn [OF r]
  show ?thesis by simp
qed

text \<open>
  The claim as stated, for every position \<open>i\<close> with \<open>ps ! i\<close> the turn holder, fails in
  a room a user has joined twice: creator 1, then 2, then 1 again. The turn holder 1 is
  \<open>ps ! 2\<close>, the claim promises \<open>ps ! 0 = 1\<close>, and the scan stops at position 0 and
  stores \<open>ps ! 1 = 2\<close>.
\<close>

theorem passTurn_rotation_counterexample:
  "map user_id (members dup_room ''AB12'') = [1, 2, 1]
   \<and> turn_holder dup_room ''AB12'' = Some ([1, 2, 1] ! 2)
   \<and> turn_holder (snd (passTurn demo_tokens (Some ''Bearer b'') ''AB12'' dup_room)) ''AB12''
       \<noteq> Some ([1, 2, 1] ! ((2 + 1) mod 3))"
  by code_simp



section \<open>Deleting a room\<close>

lemma split_sp_hd: "\<exists>ws. split_sp s = takeWhile (\<lambda>x. x \<noteq> CHR '' '') s # ws"
  by (induction s) (auto split: list.split)

lemma split_sp_append:
  "CHR '' '' \<notin> set xs \<Longrightarrow> split_sp (xs @ CHR '' '' # ys) = xs # split_sp ys"
  by (induction xs) auto

lemma token_of_scheme:
  assumes "CHR '' '' \<notin> set scheme" and "t \<noteq> []" and "hd t \<noteq> CHR '' ''"
  shows "token_of (Some (scheme @ '' '' @ t)) = Some (takeWhile (\<lambda>x. x \<noteq> CHR '' '') t)"
proof -
  obtain ws where "split_sp t = takeWhile (\<lambda>x. x \<noteq> CHR '' '') t # ws"
    using split_sp_hd by blast
  moreover have "takeWhile (\<lambda>x. x \<noteq> CHR '' '') t \<noteq> []"
    using assms(2,3) by (cases t) auto
  ultimately show ?thesis using split_sp_append [OF assms(1), of t] by simp
qed

text \<open>
  Claim C10. \<open>deleteRoom\<close> answers 401 exactly when the Authorization header carries no
  token (no header, no second piece after a space, or an empty one). With any token at
  all it deletes the rows of \<open>rooms\<close> with that code and answers "Room deleted": every
  header of the form scheme, space, non-empty text carries a token, the handler has no
  token decoder to ask, and its answer and the rooms it leaves do not depend on the
  membership table.
\<close>

theorem deleteRoom_presence_only:
  "(fst (fst (deleteRoom hdr c d)) = 401 \<longleftrightarrow> token_of hdr = None)
   \<and> (token_of hdr = None \<longrightarrow>
        deleteRoom hdr c d = ((401, Text ''Authorization token is missing''), d))
   \<and> (token_of hdr \<noteq> None \<longrightarrow>
        deleteRoom hdr c d
          = ((200, Text ''Room deleted''), d\<lparr>rooms := filter (\<lambda>r. code r \<noteq> c) (rooms d)\<rparr>)
        \<and> c \<notin> set (map code (rooms (snd (deleteRoom hdr c d)))))
   \<and> (CHR '' '' \<notin> set scheme \<and> t \<noteq> [] \<and> hd t \<noteq> CHR '' '' \<longrightarrow>
        token_of (Some (scheme @ '' '' @ t)) \<noteq> None)
   \<and> deleteRoom hdr c (d\<lparr>players := ps\<rparr>)
       = (fst (deleteRoom hdr c d), (snd (deleteRoom hdr c d))\<lparr>players := ps\<rparr>)"
  using token_of_scheme [of scheme t]
  by (auto simp: deleteRoom_def split: option.split)

theorem deleteRoom_presence_only_witness:
  "token_of (Some ''Bearer garbage'') \<noteq> None
   \<and> demo_tokens ''garbage'' = None
   \<and> ''AB12'' \<in> set (map code (rooms four_room))
   \<and> fst (deleteRoom (Some ''Bearer garbage'') ''AB12'' four_room) = (200, Text ''Room deleted'')
   \<and> ''AB12'' \<notin> set (map code (rooms (snd (deleteRoom (Some ''Bearer garbage'') ''AB12'' four_room))))
   \<and> token_of (Some ''Bearer'') = None
   \<and> fst (fst (deleteRoom (Some ''Bearer'') ''AB12'' four_room)) = 401"
proof -
  have t: "token_of (Some ''Bearer garbage'') \<noteq> None" by code_simp
  have g: "demo_tokens ''garbage'' = None" by code_simp
  have r: "''AB12'' \<in> set (map code (rooms four_room))" by code_simp
  have n: "token_of (Some ''Bearer'') = None" by code_simp
  from deleteRoom_presence_only [of "Some ''Bearer garbage''" "''AB12''" four_room "[]" "[]" "[]"]
    deleteRoom_presence_only [of "Some ''Bearer''" "''AB12''" four_room "[]" "[]" "[]"] t g r n
  show ?thesis by auto
qed

section \<open>Playing a card\<close>

lemma playCard_authenticated:
  "authenticate g hdr = Inr u \<Longrightarrow>
   playCard g hdr c n s d =
     ((200, JsonCard n s),
      d\<lparr>table_cards := table_cards d @ [\<lparr>room_code = c, number = n, seed = s, player_id = u\<rparr>],
        hand_cards := filter (\<lambda>h. \<not> (room_code h = c \<and> player_id h = u \<and> number h = n \<and> seed h = s))
            (hand_cards d)\<rparr>)"
  by (simp add: playCard_def Let_def)

text \<open>
  Claim C5. When an authenticated player holds the card \<open>(n, s)\<close> in room \<open>c\<close>,
  \<open>playCard\<close> answers with the card, appends it to the table of the room under the
  player's id, and removes every matching row from the player's hand in that room,
  which gets shorter; no other hand row is touched.
\<close>

theorem playCard_moves_card:
  assumes "authenticate g hdr = Inr u"
    and "(n, s) \<in> set (map card_face (hand_of d c u))"
    and "d' = snd (playCard g hdr c n s d)"
  shows "fst (playCard g hdr c n s d) = (200, JsonCard n s)
     \<and> table_cards d' = table_cards d @ [\<lparr>room_code = c, number = n, seed = s, player_id = u\<rparr>]
     \<and> \<lparr>room_code = c, number = n, seed = s, player_id = u\<rparr> \<in> set (table_of d' c)
     \<and> (n, s) \<notin> set (map card_face (hand_of d' c u))
     \<and> hand_cards d' = filter (\<lambda>h. \<not> (room_code h = c \<and> player_id h = u \<and> card_face h = (n, s))) (hand_cards d)
     \<and> length (hand_of d' c u) < length (hand_of d c u)"
proof -
  have len: "length (hand_of d' c u) < length (hand_of d c u)"
  proof -
    have "hand_of d' c u = filter (\<lambda>h. card_face h \<noteq> (n, s)) (hand_of d c u)"
      using assms(1,3) by (auto simp: playCard_authenticated hand_of_def card_face_def intro: filter_cong)
    moreover obtain h where h: "h \<in> set (hand_of d c u)" "\<not> card_face h \<noteq> (n, s)"
      using assms(2) by auto
    ultimately show ?thesis
      using length_filter_less [of h "hand_of d c u" "\<lambda>h. card_face h \<noteq> (n, s)"] by simp
  qed
  show ?thesis using assms(1,3) len
    by (auto simp: playCard_authenticated hand_of_def table_of_def card_face_def)
qed

theorem playCard_moves_card_witness:
  "authenticate demo_tokens (Some ''Bearer b'') = Inr 2
   \<and> (8, ''bastoni'') \<in> set (map card_face (hand_of drawn_room ''AB12'' 2))
   \<and> \<lparr>room_code = ''AB12'', number = 8, seed = ''bastoni'', player_id = 2\<rparr>
        \<in> set (table_of (snd (playCard demo_tokens (Some ''Bearer b'') ''AB12'' 8 ''bastoni'' drawn_room)) ''AB12'')
   \<and> (8, ''bastoni'') \<notin> set (map card_face
         (hand_of (snd (playCard demo_tokens (Some ''Bearer b'') ''AB12'' 8 ''bastoni'' drawn_room)) ''AB12'' 2))"
proof -
  have a: "authenticate demo_tokens (Some ''Bearer b'') = Inr 2" by code_simp
  have h: "(8, ''bastoni'') \<in> set (map card_face (hand_of drawn_room ''AB12'' 2))" by code_simp
  from playCard_moves_card [OF a h refl] a h show ?thesis by simp
qed

text \<open>
  Claim C6. When the authenticated player holds no such card in the room, \<open>playCard\<close>
  still answers 200 with the card and appends it to the table; the delete matches
  nothing and the hands are as before.
\<close>

theorem playCard_phantom:
  assumes "authenticate g hdr = Inr u"
    and "(n, s) \<notin> set (map card_face (hand_of d c u))"
    and "d' = snd (playCard g hdr c n s d)"
  shows "fst (playCard g hdr c n s d) = (200, JsonCard n s)
     \<and> table_cards d' = table_cards d @ [\<lparr>room_code = c, number = n, seed = s, player_id = u\<rparr>]
     \<and> \<lparr>room_code = c, number = n, seed = s, player_id = u\<rparr> \<in> set (table_of d' c)
     \<and> hand_cards d' = hand_cards d"
proof -
  have "filter (\<lambda>h. \<not> (room_code h = c \<and> player_id h = u \<and> number h = n \<and> seed h = s)) (hand_cards d) = hand_cards d"
    using assms(2) by (auto simp: hand_of_def card_face_def filter_id_conv)
  then show ?thesis using assms(1,3)
    by (simp add: playCard_authenticated table_of_def)
qed

theorem playCard_phantom_witness:
  "authenticate demo_tokens (Some ''Bearer a'') = Inr 1
   \<and> (1, ''spade'') \<notin> set (map card_face (hand_of drawn_room ''AB12'' 1))
   \<and> fst (playCard demo_tokens (Some ''Bearer a'') ''AB12'' 1 ''spade'' drawn_room) = (200, JsonCard 1 ''spade'')
   \<and> \<lparr>room_code = ''AB12'', number = 1, seed = ''spade'', player_id = 1\<rparr>
        \<in> set (table_of (snd (playCard demo_tokens (Some ''Bearer a'') ''AB12'' 1 ''spade'' drawn_room)) ''AB12'')
   \<and> hand_cards (snd (playCard demo_tokens (Some ''Bearer a'') ''AB12'' 1 ''spade'' drawn_room)) = hand_cards drawn_room"
proof -
  have a: "authenticate demo_tokens (Some ''Bearer a'') = Inr 1" by code_simp
  have h: "(1, ''spade'') \<notin> set (map card_face (hand_of drawn_room ''AB12'' 1))" by code_simp
  from playCard_phantom [OF a h refl] a h show ?thesis by simp
qed

section \<open>Drawing a card\<close>

lemma drawCard_authenticated:
  "authenticate g hdr = Inr u \<Longrightarrow>
   drawCard g rnd hdr c d =
     (if room_deck d c = [] then ((404, Text ''No cards left in the deck''), d)
      else (let k = room_deck d c ! (rnd mod length (room_deck d c)) in
        ((200, JsonDeckRow k),
         d\<lparr>hand_cards := hand_cards d @ [\<lparr>room_code = c, number = number k, seed = seed k, player_id = u\<rparr>],
           deck := filter (\<lambda>x. deck_id x \<noteq> deck_id k) (deck d)\<rparr>)))"
  by (simp add: drawCard_def Let_def room_deck_def)

lemma filter_deck_id_remove1:
  "distinct (map deck_id ks) \<Longrightarrow> k \<in> set ks \<Longrightarrow> filter (\<lambda>x. deck_id x \<noteq> deck_id k) ks = remove1 k ks"
proof (induction ks)
  case Nil then show ?case by simp
next
  case (Cons a ks)
  show ?case
  proof (cases "a = k")
    case True
    with Cons.prems have "deck_id k \<notin> deck_id ` set ks" by simp
    then have "\<forall>x\<in>set ks. deck_id x \<noteq> deck_id k" by (metis imageI)
    then have "filter (\<lambda>x. deck_id x \<noteq> deck_id k) ks = ks" by (simp add: filter_id_conv)
    with True show ?thesis by simp
  next
    case False
    with Cons.prems have "deck_id a \<noteq> deck_id k" by auto
    with Cons False show ?thesis by auto
  qed
qed

text \<open>
  Claim C3. For an authenticated player, with the ids of \<open>deck\<close> pairwise different:
  if the room's deck is not empty, \<open>drawCard\<close> answers with one of its rows, appends
  that card to the player's hand in the room and removes that row from the deck, so the
  room's deck and the whole deck each lose exactly one row; if the room's deck is empty
  it answers 404 "No cards left in the deck" and leaves every table as it was.
\<close>

theorem drawCard_postcondition:
  assumes "authenticate g hdr = Inr u" and "distinct (map deck_id (deck d))"
    and "d' = snd (drawCard g rnd hdr c d)"
  shows "(room_deck d c \<noteq> [] \<longrightarrow>
           (\<exists>k \<in> set (room_deck d c).
              fst (drawCard g rnd hdr c d) = (200, JsonDeckRow k)
              \<and> hand_cards d' = hand_cards d @
                  [\<lparr>room_code = c, number = number k, seed = seed k, player_id = u\<rparr>]
              \<and> deck d' = remove1 k (deck d)
              \<and> k \<notin> set (deck d')
              \<and> room_deck d' c = remove1 k (room_deck d c))
           \<and> length (room_deck d' c) + 1 = length (room_deck d c)
           \<and> length (deck d') + 1 = length (deck d))
       \<and> (room_deck d c = [] \<longrightarrow>
            drawCard g rnd hdr c d = ((404, Text ''No cards left in the deck''), d)
            \<and> hand_cards d' = hand_cards d)"
proof (cases "room_deck d c = []")
  case True
  then show ?thesis using assms(1,3) by (simp add: drawCard_authenticated)
next
  case False
  define k where "k = room_deck d c ! (rnd mod length (room_deck d c))"
  have kin: "k \<in> set (room_deck d c)" using False by (simp add: k_def)
  then have kd: "k \<in> set (deck d)" by (simp add: room_deck_def)
  have dk: "deck d' = remove1 k (deck d)"
    using assms False filter_deck_id_remove1 [OF assms(2) kd]
    by (simp add: drawCard_authenticated k_def Let_def)
  have dist: "distinct (deck d)" using assms(2) by (simp add: distinct_map)
  have rd: "room_deck d' c = remove1 k (room_deck d c)"
    by (simp add: room_deck_def dk filter_remove1)
  have "fst (drawCard g rnd hdr c d) = (200, JsonDeckRow k)"
    and "hand_cards d' = hand_cards d @ [\<lparr>room_code = c, number = number k, seed = seed k, player_id = u\<rparr>]"
    using assms(1,3) False by (simp_all add: drawCard_authenticated k_def Let_def)
  moreover have "k \<notin> set (deck d')" using dk dist by simp
  moreover have "length (room_deck d' c) + 1 = length (room_deck d c)"
    using rd kin length_pos_if_in_set [OF kin] by (simp add: length_remove1)
  moreover have "length (deck d') + 1 = length (deck d)"
    using dk kd length_pos_if_in_set [OF kd] by (simp add: length_remove1)
  ultimately show ?thesis using False kin dk rd by blast
qed

theorem drawCard_postcondition_witness:
  "authenticate demo_tokens (Some ''Bearer b'') = Inr 2
   \<and> distinct (map deck_id (deck started_room))
   \<and> length (room_deck started_room ''AB12'') = 40
   \<and> length (room_deck (snd (drawCard demo_tokens 7 (Some ''Bearer b'') ''AB12'' started_room)) ''AB12'') + 1 = 40
   \<and> room_deck four_room ''AB12'' = []
   \<and> distinct (map deck_id (deck four_room))
   \<and> drawCard demo_tokens 7 (Some ''Bearer b'') ''AB12'' four_room
        = ((404, Text ''No cards left in the deck''), four_room)"
proof -
  have a: "authenticate demo_tokens (Some ''Bearer b'') = Inr 2" by code_simp
  have i: "distinct (map deck_id (deck started_room))" by code_simp
  have l: "length (room_deck started_room ''AB12'') = 40" by code_simp
  have e: "room_deck four_room ''AB12'' = []" by code_simp
  have j: "distinct (map deck_id (deck four_room))" by code_simp
  have ne: "room_deck started_room ''AB12'' \<noteq> []" using l by auto
  from drawCard_postcondition [OF a i refl, where rnd = 7 and c = "''AB12''"]
    drawCard_postcondition [OF a j refl, where rnd = 7 and c = "''AB12''"]
    a i l e j ne
  show ?thesis by simp
qed

section \<open>Joining a room\<close>

lemma joinRoom_authenticated:
  "authenticate g hdr = Inr u \<Longrightarrow>
   joinRoom g hdr c d =
     ((200, Text ''Player joined room''),
      d\<lparr>players := players d @
        [\<lparr>room_code = c, user_id = u, team = Some (if length (members d c) mod 2 = 0 then 1 else 2),
          host = False, in_game = False\<rparr>]\<rparr>)"
  by (simp add: joinRoom_def Let_def)

lemma members_joinRoom:
  "authenticate g hdr = Inr u \<Longrightarrow>
   members (snd (joinRoom g hdr c d)) c =
     members d c @
       [\<lparr>room_code = c, user_id = u, team = Some (if length (members d c) mod 2 = 0 then 1 else 2),
         host = False, in_game = False\<rparr>]"
  by (simp add: joinRoom_authenticated members_def)

lemma joins_snoc: "joins g (hs @ [h]) c d = snd (joinRoom g h c (joins g hs c d))"
  by (simp add: joins_def)

lemma joins_members:
  "\<forall>h \<in> set hs. \<exists>u. authenticate g h = Inr u \<Longrightarrow>
   map team (members (joins g hs c d) c)
     = map team (members d c) @
       map (\<lambda>k. Some (if (length (members d c) + k) mod 2 = 0 then 1 else 2)) [0..<length hs]
   \<and> map host (members (joins g hs c d) c) = map host (members d c) @ replicate (length hs) False"
proof (induction hs rule: rev_induct)
  case Nil
  then show ?case by (simp add: joins_def)
next
  case (snoc h hs)
  then obtain u where u: "authenticate g h = Inr u" by auto
  from snoc have ih: "map team (members (joins g hs c d) c)
     = map team (members d c) @
       map (\<lambda>k. Some (if (length (members d c) + k) mod 2 = 0 then 1 else 2)) [0..<length hs]"
    and ihh: "map host (members (joins g hs c d) c) = map host (members d c) @ replicate (length hs) False"
    by auto
  have len: "length (members (joins g hs c d) c) = length (members d c) + length hs"
    using arg_cong [OF ih, of length] by simp
  show ?case
    using members_joinRoom [OF u, of c "joins g hs c d"] ih ihh len
    by (simp add: joins_snoc replicate_append_same)
qed

lemma createRoom_ok:
  assumes "createRoom g gen h0 d0 = Some ((200, b), d1)"
  shows "\<exists>u c. authenticate g h0 = Inr u \<and> pick_code d0 gen = Some c \<and> b = JsonString c
     \<and> d1 = d0\<lparr>rooms := rooms d0 @ [\<lparr>code = c, status = ''waiting'', turn_player_id = Some u\<rparr>],
                players := players d0 @
                  [\<lparr>room_code = c, user_id = u, team = None, host = True, in_game = False\<rparr>]\<rparr>"
  using assms
  by (auto simp: createRoom_def split: sum.splits option.splits dest: authenticate_Inl)

text \<open>
  Claim C4, as amended. Each single join assigns team 1 when the number of members it
  finds is even and team 2 when it is odd. So in a room just created (the creator's row
  first, host, no team, and no older membership row under the new code), after any run
  of join requests by authenticated users the teams of the members in join order are:
  none for the creator, then for the \<open>k\<close>-th caller of \<open>joinRoom\<close> team 2 when \<open>k\<close>
  is odd and team 1 when it is even. The alternation starts at team 2 for the second
  member of the room, the first to join, and the third member is in team 1; no joiner
  is host.
\<close>

theorem team_alternation:
  assumes "createRoom g gen h0 d0 = Some ((200, JsonString c), d1)"
    and "members d0 c = []"
    and "\<forall>h \<in> set hs. \<exists>u. authenticate g h = Inr u"
  shows "map team (members (joins g hs c d1) c)
           = None # map (\<lambda>k. Some (if even k then 1 else 2)) [1..<Suc (length hs)]
     \<and> map host (members (joins g hs c d1) c) = True # replicate (length hs) False
     \<and> (authenticate g h = Inr u \<longrightarrow>
          members (snd (joinRoom g h c d)) c
            = members d c @
              [\<lparr>room_code = c, user_id = u,
                team = Some (if even (length (members d c)) then 1 else 2),
                host = False, in_game = False\<rparr>])"
proof -
  from createRoom_ok [OF assms(1)] obtain u0 where
    d1: "d1 = d0\<lparr>rooms := rooms d0 @ [\<lparr>code = c, status = ''waiting'', turn_player_id = Some u0\<rparr>],
                players := players d0 @
                  [\<lparr>room_code = c, user_id = u0, team = None, host = True, in_game = False\<rparr>]\<rparr>"
    by auto
  have m1: "members d1 c = [\<lparr>room_code = c, user_id = u0, team = None, host = True, in_game = False\<rparr>]"
    using assms(2) by (simp add: d1 members_def)
  have shift: "map (\<lambda>k. Some (if (1 + k) mod 2 = 0 then 1 else 2 :: nat)) [0..<n]
      = map (\<lambda>k. Some (if even k then 1 else 2)) [1..<Suc n]" for n
    by (induction n) (auto simp: even_iff_mod_2_eq_zero)
  have "map team (members (joins g hs c d1) c)
           = None # map (\<lambda>k. Some (if even k then 1 else 2)) [1..<Suc (length hs)]"
    using joins_members [OF assms(3), of c d1] m1 shift [of "length hs"] by simp
  moreover have "map host (members (joins g hs c d1) c) = True # replicate (length hs) False"
    using joins_members [OF assms(3), of c d1] m1 by simp
  moreover have "members (snd (joinRoom g h c d)) c
            = members d c @
              [\<lparr>room_code = c, user_id = u,
                team = Some (if even (length (members d c)) then 1 else 2),
                host = False, in_game = False\<rparr>]" if "authenticate g h = Inr u"
    using members_joinRoom [OF that, of c d] by (simp add: even_iff_mod_2_eq_zero)
  ultimately show ?thesis by blast
qed

theorem team_alternation_witness:
  "createRoom demo_tokens [''AB12''] (Some ''Bearer a'') empty_db
      = Some ((200, JsonString ''AB12''), created_room)
   \<and> members empty_db ''AB12'' = []
   \<and> map (authenticate demo_tokens) [Some ''Bearer b'', Some ''Bearer c'', Some ''Bearer d'']
       = [Inr 2, Inr 3, Inr 4]
   \<and> map team (members
        (joins demo_tokens [Some ''Bearer b'', Some ''Bearer c'', Some ''Bearer d''] ''AB12'' created_room)
        ''AB12'') = [None, Some 2, Some 1, Some 2]"
proof -
  have c: "createRoom demo_tokens [''AB12''] (Some ''Bearer a'') empty_db
      = Some ((200, JsonString ''AB12''), created_room)" by code_simp
  have e: "members empty_db ''AB12'' = []" by code_simp
  have a: "\<forall>h \<in> set [Some ''Bearer b'', Some ''Bearer c'', Some ''Bearer d''].
         \<exists>u. authenticate demo_tokens h = Inr u"
    by (simp add: authenticate_def demo_tokens_def)
  have "[1..<Suc (length [Some ''Bearer b'', Some ''Bearer c'', Some ''Bearer d''])] = [1, 2, 3]"
    by code_simp
  moreover have "map (authenticate demo_tokens)
      [Some ''Bearer b'', Some ''Bearer c'', Some ''Bearer d''] = [Inr 2, Inr 3, Inr 4]"
    by code_simp
  ultimately show ?thesis
    using team_alternation [OF c e a, of "Some ''Bearer b''" 2 empty_db] c e by simp
qed

text \<open>
  The claim as stated, alternation starting at team 1 for the second in join order,
  fails at the first join: the creator's row is counted, the count the join finds is 1,
  and the second member of the room gets team 2.
\<close>

theorem team_alternation_counterexample:
  "map user_id (members created_room ''AB12'') = [1]
   \<and> map team (members created_room ''AB12'') = [None]
   \<and> map user_id
        (members (snd (joinRoom demo_tokens (Some ''Bearer b'') ''AB12'' created_room)) ''AB12'')
       = [1, 2]
   \<and> map team
        (members (snd (joinRoom demo_tokens (Some ''Bearer b'') ''AB12'' created_room)) ''AB12'')
       = [None, Some 2]
   \<and> map team
        (members (snd (joinRoom demo_tokens (Some ''Bearer b'') ''AB12'' created_room)) ''AB12'') ! 1
       \<noteq> Some 1"
  by code_simp


section \<open>Starting a game\<close>

lemma insert_deck_frame [simp]:
  "rooms (insert_deck c ks d) = rooms d" "players (insert_deck c ks d) = players d"
  "hand_cards (insert_deck c ks d) = hand_cards d" "table_cards (insert_deck c ks d) = table_cards d"
  by (induction ks arbitrary: d) auto

lemma insert_deck_next [simp]: "next_deck_id (insert_deck c ks d) = next_deck_id d + length ks"
  by (induction ks arbitrary: d) auto

lemma insert_deck_deck: "deck (insert_deck c ks d) = deck d @ new_rows c ks (next_deck_id d)"
  by (induction ks arbitrary: d) simp_all

lemma new_rows_faces [simp]: "map card_face (new_rows c ks n) = ks"
  by (induction ks arbitrary: n) (simp_all add: card_face_def)

lemma new_rows_same [simp]: "filter (\<lambda>k. room_code k = c) (new_rows c ks n) = new_rows c ks n"
  by (induction ks arbitrary: n) simp_all

lemma new_rows_other [simp]:
  "c' \<noteq> c \<Longrightarrow> filter (\<lambda>k. room_code k = c') (new_rows c ks n) = []"
  by (induction ks arbitrary: n) simp_all

lemma new_rows_length [simp]: "length (new_rows c ks n) = length ks"
  by (induction ks arbitrary: n) simp_all

lemma new_rows_ids:
  "k \<in> set (new_rows c ks n) \<Longrightarrow> n \<le> deck_id k \<and> deck_id k < n + length ks"
  by (induction ks arbitrary: n) fastforce+

lemma new_rows_distinct: "distinct (map deck_id (new_rows c ks n))"
proof (induction ks arbitrary: n)
  case Nil
  then show ?case by simp
next
  case (Cons k ks)
  have "n \<notin> deck_id ` set (new_rows c ks (Suc n))"
    using new_rows_ids [of _ c ks "Suc n"] by fastforce
  with Cons show ?case by simp
qed

lemma deck_ok_insert_deck: "deck_ok d \<Longrightarrow> deck_ok (insert_deck c ks d)"
proof -
  assume ok: "deck_ok d"
  have old: "\<forall>k \<in> set (deck d). deck_id k < next_deck_id d"
    using ok by (simp add: deck_ok_def list_all_iff)
  have new: "\<forall>k \<in> set (new_rows c ks (next_deck_id d)).
      next_deck_id d \<le> deck_id k \<and> deck_id k < next_deck_id d + length ks"
    using new_rows_ids by blast
  have "deck_id ` set (deck d) \<inter> deck_id ` set (new_rows c ks (next_deck_id d)) = {}"
    using old new by fastforce
  then have "distinct (map deck_id (deck (insert_deck c ks d)))"
    using ok new_rows_distinct [of c ks "next_deck_id d"]
    by (simp add: insert_deck_deck deck_ok_def)
  moreover have "list_all (\<lambda>k. deck_id k < next_deck_id (insert_deck c ks d))
      (deck (insert_deck c ks d))"
    using old new by (auto simp: insert_deck_deck list_all_iff)
  ultimately show ?thesis by (simp add: deck_ok_def)
qed

lemma length_generateDeck: "length (generateDeck ranks seeds) = length ranks * length seeds"
  by (induction seeds) (simp_all add: generateDeck_def)

lemma set_generateDeck: "set (generateDeck ranks seeds) = set ranks \<times> set seeds"
  by (auto simp: generateDeck_def)

lemma distinct_generateDeck:
  "distinct ranks \<Longrightarrow> distinct seeds \<Longrightarrow> distinct (generateDeck ranks seeds)"
proof (induction seeds)
  case Nil
  then show ?case by (simp add: generateDeck_def)
next
  case (Cons s seeds)
  have "distinct (map (\<lambda>n. (n, s)) ranks)"
    using Cons.prems(1) by (simp add: distinct_map inj_on_def)
  moreover have "distinct (generateDeck ranks seeds)" using Cons by simp
  moreover have "set (map (\<lambda>n. (n, s)) ranks) \<inter> set (generateDeck ranks seeds) = {}"
    using Cons.prems(2) by (auto simp: set_generateDeck)
  ultimately show ?case by (simp add: generateDeck_def)
qed

lemma startGame_authenticated:
  "authenticate g hdr = Inr u \<Longrightarrow>
   startGame g gen hdr c d =
     ((200, Text (''Game started for room with CODE: '' @ c)),
      insert_deck c gen
        (d\<lparr>players := map (\<lambda>p. if room_code p = c then p\<lparr>in_game := True\<rparr> else p) (players d),
           rooms := map (\<lambda>r. if code r = c then r\<lparr>status := ''in_progress''\<rparr> else r) (rooms d)\<rparr>))"
  by (simp add: startGame_def Let_def)

lemma members_mark:
  "filter (\<lambda>p. room_code p = c') (map (\<lambda>p. if room_code p = c then p\<lparr>in_game := True\<rparr> else p) ps)
     = map (\<lambda>p. if room_code p = c then p\<lparr>in_game := True\<rparr> else p) (filter (\<lambda>p. room_code p = c') ps)"
  by (induction ps) auto

lemma status_mark:
  "list_all (\<lambda>r. status r = s)
     (filter (\<lambda>r. code r = c) (map (\<lambda>r. if code r = c then r\<lparr>status := s\<rparr> else r) rs))"
  by (induction rs) auto

lemma codes_mark:
  "map code (map (\<lambda>r. if code r = c then r\<lparr>status := s\<rparr> else r) rs) = map code rs"
  by (induction rs) auto

lemma startGame_members:
  "authenticate g hdr = Inr u \<Longrightarrow>
   members (snd (startGame g gen hdr c d)) c'
     = map (\<lambda>p. if room_code p = c then p\<lparr>in_game := True\<rparr> else p) (members d c')"
  by (simp add: startGame_authenticated members_def members_mark)

lemma startGame_room_deck:
  "authenticate g hdr = Inr u \<Longrightarrow>
   room_deck (snd (startGame g gen hdr c d)) c'
     = room_deck d c' @ (if c' = c then new_rows c gen (next_deck_id d) else [])"
  by (simp add: startGame_authenticated room_deck_def insert_deck_deck)

text \<open>
  Claim C7, as amended. For an authenticated caller, with the generated deck the
  cross-product of ten different ranks and four different suits: \<open>startGame\<close> marks
  every member of the room in game and keeps the members, sets the status of the room's
  row to \<open>in_progress\<close>, and appends the generated cards, in order, to the room's deck;
  the generated deck has 40 cards, no card twice, and is exactly ranks times suits. So
  the room's deck grows by exactly 40 rows, and it is exactly 40 rows without a repeated
  card when the room's deck was empty before the call. Decks and members of other rooms
  are untouched.
\<close>

theorem startGame_postcondition:
  assumes "authenticate g hdr = Inr u"
    and "distinct ranks" and "length ranks = 10" and "distinct seeds" and "length seeds = 4"
    and "d' = snd (startGame g (generateDeck ranks seeds) hdr c d)"
  shows "fst (startGame g (generateDeck ranks seeds) hdr c d)
           = (200, Text (''Game started for room with CODE: '' @ c))
     \<and> list_all in_game (members d' c)
     \<and> map user_id (members d' c) = map user_id (members d c)
     \<and> list_all (\<lambda>r. status r = ''in_progress'') (filter (\<lambda>r. code r = c) (rooms d'))
     \<and> map code (rooms d') = map code (rooms d)
     \<and> map card_face (room_deck d' c) = map card_face (room_deck d c) @ generateDeck ranks seeds
     \<and> length (generateDeck ranks seeds) = 40
     \<and> distinct (generateDeck ranks seeds)
     \<and> set (generateDeck ranks seeds) = set ranks \<times> set seeds
     \<and> length (room_deck d' c) = length (room_deck d c) + 40
     \<and> (room_deck d c = [] \<longrightarrow>
          length (room_deck d' c) = 40 \<and> distinct (map card_face (room_deck d' c)))
     \<and> (c' \<noteq> c \<longrightarrow> room_deck d' c' = room_deck d c' \<and> members d' c' = members d c')"
proof -
  let ?gen = "generateDeck ranks seeds"
  let ?mark = "\<lambda>p. if room_code p = c then p\<lparr>in_game := True\<rparr> else p"
  have len: "length ?gen = 40" using assms(3,5) by (simp add: length_generateDeck)
  have dist: "distinct ?gen" using assms(2,4) by (rule distinct_generateDeck)
  have mem: "members d' c'' = map ?mark (members d c'')" for c''
    unfolding assms(6) by (rule startGame_members [OF assms(1)])
  have rd: "room_deck d' c = room_deck d c @ new_rows c ?gen (next_deck_id d)"
    unfolding assms(6) by (simp add: startGame_room_deck [OF assms(1)])
  have rd': "room_deck d' c' = room_deck d c'" if "c' \<noteq> c"
    unfolding assms(6) using that by (simp add: startGame_room_deck [OF assms(1)])
  have m1: "list_all in_game (members d' c)"
    unfolding mem by (simp add: list_all_iff members_def)
  have m2: "map user_id (members d' c) = map user_id (members d c)"
    unfolding mem by (induction "members d c") auto
  have m3: "members d' c' = members d c'" if "c' \<noteq> c"
    unfolding mem using that by (intro map_idI) (auto simp: members_def)
  have r1: "list_all (\<lambda>r. status r = ''in_progress'') (filter (\<lambda>r. code r = c) (rooms d'))"
    unfolding assms(6) by (simp add: startGame_authenticated [OF assms(1)] status_mark)
  have r2: "map code (rooms d') = map code (rooms d)"
    unfolding assms(6) by (simp add: startGame_authenticated [OF assms(1)] codes_mark)
  have resp: "fst (startGame g ?gen hdr c d) = (200, Text (''Game started for room with CODE: '' @ c))"
    by (simp add: startGame_authenticated [OF assms(1)])
  have faces: "map card_face (room_deck d' c) = map card_face (room_deck d c) @ ?gen"
    by (simp add: rd)
  have l40: "length (room_deck d' c) = length (room_deck d c) + 40"
    by (simp add: rd len)
  have fresh: "length (room_deck d' c) = 40 \<and> distinct (map card_face (room_deck d' c))"
    if "room_deck d c = []"
    using that faces l40 dist by simp
  show ?thesis
  proof (intro conjI impI)
    show "fst (startGame g ?gen hdr c d) = (200, Text (''Game started for room with CODE: '' @ c))"
      by (rule resp)
    show "list_all in_game (members d' c)" by (rule m1)
    show "map user_id (members d' c) = map user_id (members d c)" by (rule m2)
    show "list_all (\<lambda>r. status r = ''in_progress'') (filter (\<lambda>r. code r = c) (rooms d'))"
      by (rule r1)
    show "map code (rooms d') = map code (rooms d)" by (rule r2)
    show "map card_face (room_deck d' c) = map card_face (room_deck d c) @ ?gen" by (rule faces)
    show "length ?gen = 40" by (rule len)
    show "distinct ?gen" by (rule dist)
    show "set ?gen = set ranks \<times> set seeds" by (rule set_generateDeck)
    show "length (room_deck d' c) = length (room_deck d c) + 40" by (rule l40)
  next
    assume "room_deck d c = []"
    then show "length (room_deck d' c) = 40" using fresh by simp
  next
    assume "room_deck d c = []"
    then show "distinct (map card_face (room_deck d' c))" using fresh by simp
  next
    assume "c' \<noteq> c"
    then show "room_deck d' c' = room_deck d c'" by (rule rd')
  next
    assume "c' \<noteq> c"
    then show "members d' c' = members d c'" by (rule m3)
  qed
qed

theorem startGame_postcondition_witness:
  "authenticate demo_tokens (Some ''Bearer a'') = Inr 1
   \<and> distinct [1, 2, 3, 4, 5, 6, 7, 8, 9, 10 :: nat]
   \<and> distinct [''bastoni'', ''coppe'', ''denari'', ''spade'']
   \<and> room_deck four_room ''AB12'' = []
   \<and> length (room_deck started_room ''AB12'') = 40
   \<and> distinct (map card_face (room_deck started_room ''AB12''))
   \<and> list_all in_game (members started_room ''AB12'')
   \<and> list_all (\<lambda>r. status r = ''in_progress'') (filter (\<lambda>r. code r = ''AB12'') (rooms started_room))"
proof -
  have a: "authenticate demo_tokens (Some ''Bearer a'') = Inr 1" by code_simp
  have r: "distinct [1, 2, 3, 4, 5, 6, 7, 8, 9, 10 :: nat]" by simp
  have lr: "length [1, 2, 3, 4, 5, 6, 7, 8, 9, 10 :: nat] = 10" by simp
  have s: "distinct [''bastoni'', ''coppe'', ''denari'', ''spade'']" by simp
  have ls: "length [''bastoni'', ''coppe'', ''denari'', ''spade''] = 4" by simp
  have e: "room_deck four_room ''AB12'' = []" by code_simp
  have d: "started_room = snd (startGame demo_tokens
      (generateDeck [1, 2, 3, 4, 5, 6, 7, 8, 9, 10] [''bastoni'', ''coppe'', ''denari'', ''spade''])
      (Some ''Bearer a'') ''AB12'' four_room)"
    by (simp add: started_room_def demo_deck_def)
  from startGame_postcondition [OF a r lr s ls d, of "''AB12''"] a r s e
  show ?thesis by simp
qed

text \<open>
  The claim as stated, a deck of exactly 40 after every \<open>startGame\<close>, fails when the
  room's deck is not empty: nothing in the handler looks at the status or at the deck,
  and a second start of the same room leaves 80 rows.
\<close>

theorem startGame_counterexample:
  "authenticate demo_tokens (Some ''Bearer a'') = Inr 1
   \<and> length (room_deck started_room ''AB12'') = 40
   \<and> length (room_deck
        (snd (startGame demo_tokens demo_deck (Some ''Bearer a'') ''AB12'' started_room)) ''AB12'')
       = 80"
  by code_simp


section \<open>Ending a game\<close>

text \<open>
  Claim C8, as amended. Whatever the table \<open>rooms\<close> makes of the column \<open>id\<close>,
  \<open>endGame\<close> deletes exactly the hand cards whose \<open>player_id\<close> is the \<open>user_id\<close> of a
  member of the room named by the request parameter, in whichever room the card is held;
  the hand cards of users who are not members of that room stay, and the membership
  rows, the deck and the table are untouched.
\<close>

theorem endGame_hand_cards:
  "hand_cards (snd (endGame rooms_id ident d))
     = filter (\<lambda>h. player_id h \<notin> set (map user_id (members d ident))) (hand_cards d)
   \<and> set (hand_cards (snd (endGame rooms_id ident d)))
       = {h \<in> set (hand_cards d). player_id h \<notin> user_id ` set (members d ident)}
   \<and> players (snd (endGame rooms_id ident d)) = players d
   \<and> deck (snd (endGame rooms_id ident d)) = deck d
   \<and> table_cards (snd (endGame rooms_id ident d)) = table_cards d"
  by (cases rooms_id) (auto simp: endGame_def Let_def)

theorem endGame_hand_cards_witness:
  "map user_id (members two_rooms ''CD34'') = [2, 1]
   \<and> map card_face (hand_cards two_rooms) = [(1, ''bastoni'')]
   \<and> hand_cards (snd (endGame None ''CD34'' two_rooms)) = []
   \<and> hand_cards (snd (endGame None ''ZZ99'' two_rooms)) = hand_cards two_rooms"
proof -
  have m: "map user_id (members two_rooms ''CD34'') = [2, 1]" by code_simp
  have z: "members two_rooms ''ZZ99'' = []" by code_simp
  have h: "map card_face (hand_cards two_rooms) = [(1, ''bastoni'')]" by code_simp
  have p: "map player_id (hand_cards two_rooms) = [1]" by code_simp
  have "filter (\<lambda>h. player_id h \<notin> set [2, 1]) (hand_cards two_rooms) = []"
    using p by (cases "hand_cards two_rooms") auto
  with endGame_hand_cards [of None "''CD34''" two_rooms]
    endGame_hand_cards [of None "''ZZ99''" two_rooms] m z h
  show ?thesis by simp
qed

text \<open>
  The claim as stated fails for a member of two rooms: user 1 is the only member of
  \<open>AB12\<close> and holds a card in \<open>CD34\<close>; ending \<open>AB12\<close> deletes that card. With a
  table \<open>rooms\<close> keyed by \<open>code\<close> alone, as the spec describes it, the update by \<open>id\<close>
  throws: the answer is 500 and the status of \<open>AB12\<close> is still \<open>waiting\<close>.
\<close>

theorem endGame_counterexample:
  "map user_id (members two_rooms ''AB12'') = [1]
   \<and> map card_face (hand_of two_rooms ''CD34'' 1) = [(1, ''bastoni'')]
   \<and> hand_of (snd (endGame None ''AB12'' two_rooms)) ''CD34'' 1 = []
   \<and> fst (endGame None ''AB12'' two_rooms) = (500, Text ''An error occurred'')
   \<and> map status (filter (\<lambda>r. code r = ''AB12'') (rooms (snd (endGame None ''AB12'' two_rooms))))
       = [''waiting'']"
  by code_simp


section \<open>Hosts\<close>

lemma count_filter_le: "length (filter P (filter Q ps)) \<le> length (filter P ps)"
  by (induction ps) auto

lemma count_filter_same:
  "\<forall>p \<in> set ps. P p \<longrightarrow> Q p \<Longrightarrow> length (filter P (filter Q ps)) = length (filter P ps)"
  by (induction ps) auto

lemma count_map: "(\<And>p. P (f p) = P p) \<Longrightarrow> length (filter P (map f ps)) = length (filter P ps)"
  by (induction ps) auto

lemma host_count_alt:
  "host_count d c = length (filter (\<lambda>p. room_code p = c \<and> host p) (players d))"
  by (simp add: host_count_def members_def conj_commute)

lemma host_count_players: "players d' = players d \<Longrightarrow> host_count d' c = host_count d c"
  by (simp add: host_count_alt)

lemma players_endGame [simp]: "players (snd (endGame rooms_id ident d)) = players d"
  by (cases rooms_id) (simp_all add: endGame_def Let_def)

lemma players_passTurn [simp]: "players (snd (passTurn g hdr c d)) = players d"
  by (simp add: passTurn_def Let_def set_turn_def split: sum.split option.split)

lemma players_drawCard [simp]: "players (snd (drawCard g rnd hdr c d)) = players d"
  by (simp add: drawCard_def Let_def split: sum.split)

lemma players_playCard [simp]: "players (snd (playCard g hdr c n s d)) = players d"
  by (simp add: playCard_def Let_def split: sum.split)

lemma host_count_joinRoom: "host_count (snd (joinRoom g hdr c d)) c' = host_count d c'"
  by (simp add: joinRoom_def Let_def host_count_alt split: sum.split)

lemma host_count_startGame: "host_count (snd (startGame g gen hdr c d)) c' = host_count d c'"
proof (cases "authenticate g hdr")
  case (Inl r)
  then show ?thesis by (simp add: startGame_def)
next
  case (Inr u)
  have "length (filter (\<lambda>p. room_code p = c' \<and> host p)
          (map (\<lambda>p. if room_code p = c then p\<lparr>in_game := True\<rparr> else p) (players d)))
        = length (filter (\<lambda>p. room_code p = c' \<and> host p) (players d))"
    by (rule count_map) simp
  then show ?thesis by (simp add: startGame_authenticated [OF Inr] host_count_alt)
qed

lemma leaveRoom_players:
  "players (snd (leaveRoom g hdr c d)) =
     (case authenticate g hdr of Inl r \<Rightarrow> players d
      | Inr u \<Rightarrow> filter (\<lambda>p. \<not> (room_code p = c \<and> user_id p = u)) (players d))"
  by (simp add: leaveRoom_def split: sum.split)

lemma giveUp_players:
  "players (snd (giveUp g hdr c d)) =
     (case authenticate g hdr of Inl r \<Rightarrow> players d
      | Inr u \<Rightarrow> filter (\<lambda>p. \<not> (room_code p = c \<and> user_id p = u))
          (map (\<lambda>p. if room_code p = c \<and> user_id p = u then p\<lparr>in_game := False\<rparr> else p) (players d)))"
  by (simp add: giveUp_def Let_def split: sum.split)

lemma giveUp_players_count:
  "length (filter (\<lambda>p. room_code p = c' \<and> host p) (players (snd (giveUp g hdr c d))))
     = length (filter (\<lambda>p. room_code p = c' \<and> host p) (players (snd (leaveRoom g hdr c d))))"
proof (cases "authenticate g hdr")
  case (Inl r)
  then show ?thesis by (simp add: giveUp_players leaveRoom_players)
next
  case (Inr u)
  let ?f = "\<lambda>p. if room_code p = c \<and> user_id p = u then p\<lparr>in_game := False\<rparr> else p"
  let ?Q = "\<lambda>p. \<not> (room_code p = c \<and> user_id p = u)"
  let ?P = "\<lambda>p. room_code p = c' \<and> host p"
  have "filter ?Q (map ?f (players d)) = map ?f (filter ?Q (players d))"
    by (induction "players d" arbitrary: d) (auto simp: filter_map comp_def)
  moreover have "length (filter ?P (map ?f (filter ?Q (players d)))) = length (filter ?P (filter ?Q (players d)))"
    by (rule count_map) simp
  ultimately show ?thesis using Inr by (simp add: giveUp_players leaveRoom_players)
qed

lemma host_count_giveUp: "host_count (snd (giveUp g hdr c d)) c' = host_count (snd (leaveRoom g hdr c d)) c'"
  by (simp add: host_count_alt giveUp_players_count)

lemma host_count_leaveRoom_le: "host_count (snd (leaveRoom g hdr c d)) c' \<le> host_count d c'"
proof (cases "authenticate g hdr")
  case (Inl r)
  then show ?thesis by (simp add: host_count_alt leaveRoom_players)
next
  case (Inr u)
  then have eq: "players (snd (leaveRoom g hdr c d))
      = filter (\<lambda>p. \<not> (room_code p = c \<and> user_id p = u)) (players d)"
    by (simp add: leaveRoom_players)
  show ?thesis unfolding host_count_alt eq by (rule count_filter_le)
qed

lemma host_count_leaveRoom_same:
  assumes "authenticate g hdr = Inr u"
    and "\<not> (\<exists>p \<in> set (members d c). user_id p = u \<and> host p)"
  shows "host_count (snd (leaveRoom g hdr c d)) c' = host_count d c'"
proof -
  have eq: "players (snd (leaveRoom g hdr c d))
      = filter (\<lambda>p. \<not> (room_code p = c \<and> user_id p = u)) (players d)"
    using assms(1) by (simp add: leaveRoom_players)
  have "\<forall>p \<in> set (players d). (room_code p = c' \<and> host p) \<longrightarrow> \<not> (room_code p = c \<and> user_id p = u)"
    using assms(2) by (auto simp: members_def)
  then have "length (filter (\<lambda>p. room_code p = c' \<and> host p)
      (filter (\<lambda>p. \<not> (room_code p = c \<and> user_id p = u)) (players d)))
      = length (filter (\<lambda>p. room_code p = c' \<and> host p) (players d))"
    by (rule count_filter_same)
  then show ?thesis unfolding host_count_alt eq .
qed

lemmas host_count_frame =
  host_count_players [OF players_endGame] host_count_players [OF players_passTurn]
  host_count_players [OF players_drawCard] host_count_players [OF players_playCard]

lemma host_count_handle_le: "host_count (handle g rq d) c' \<le> host_count d c'"
  by (cases rq)
    (simp_all add: host_count_joinRoom host_count_startGame host_count_giveUp
      host_count_leaveRoom_le host_count_frame)

lemma host_count_handle_same: "\<not> leaves rq \<Longrightarrow> host_count (handle g rq d) c' = host_count d c'"
  by (cases rq) (simp_all add: host_count_joinRoom host_count_startGame host_count_frame)

lemma pick_code_returns:
  "\<exists>c \<in> set gen. isCodeUnique d c \<Longrightarrow> \<exists>c. pick_code d gen = Some c \<and> isCodeUnique d c"
  by (induction gen) auto

lemma createRoom_returns:
  assumes "authenticate g hdr = Inr u" and "\<exists>c \<in> set gen. isCodeUnique d c"
  shows "\<exists>c d'. createRoom g gen hdr d = Some ((200, JsonString c), d') \<and> isCodeUnique d c"
  using pick_code_returns [OF assms(2)] assms(1) by (auto simp: createRoom_def)

lemma createRoom_host:
  assumes "createRoom g gen hdr d0 = Some ((200, JsonString c), d1)" and "members d0 c = []"
  shows "\<exists>u. authenticate g hdr = Inr u
     \<and> members d1 c = [\<lparr>room_code = c, user_id = u, team = None, host = True, in_game = False\<rparr>]"
proof -
  from createRoom_ok [OF assms(1)] obtain u where
    u: "authenticate g hdr = Inr u"
    and d1: "d1 = d0\<lparr>rooms := rooms d0 @ [\<lparr>code = c, status = ''waiting'', turn_player_id = Some u\<rparr>],
                players := players d0 @
                  [\<lparr>room_code = c, user_id = u, team = None, host = True, in_game = False\<rparr>]\<rparr>"
    by auto
  have "members d1 c = [\<lparr>room_code = c, user_id = u, team = None, host = True, in_game = False\<rparr>]"
    using assms(2) by (simp add: d1 members_def)
  with u show ?thesis by blast
qed

text \<open>
  Claim C9, as amended. After a successful \<open>createRoom\<close> under a code that no older
  membership row carries, the creator's row is the only member of the room and it is
  host. Every request to \<open>joinRoom\<close>, \<open>leaveRoom\<close>, \<open>giveUp\<close>, \<open>startGame\<close>,
  \<open>endGame\<close>, \<open>passTurn\<close>, \<open>drawCard\<close> or \<open>playCard\<close> leaves each room with at most
  as many hosts as before, so a room with at most one host keeps at most one; all but
  \<open>leaveRoom\<close> and \<open>giveUp\<close> leave the number of hosts of every room unchanged, and so
  do these two when the caller has no host row in the room left. \<open>createRoom\<close> does
  answer, with a room code, for an authenticated caller as soon as one of the generated
  codes is not in use.
\<close>

theorem host_invariant:
  "(createRoom g gen hdr d0 = Some ((200, JsonString c), d1) \<and> members d0 c = [] \<longrightarrow>
      (\<exists>u. authenticate g hdr = Inr u
         \<and> members d1 c = [\<lparr>room_code = c, user_id = u, team = None, host = True, in_game = False\<rparr>])
      \<and> host_count d1 c = 1)
   \<and> host_count (handle g rq d) c' \<le> host_count d c'
   \<and> (host_count d c' \<le> 1 \<longrightarrow> host_count (handle g rq d) c' \<le> 1)
   \<and> (\<not> leaves rq \<longrightarrow> host_count (handle g rq d) c' = host_count d c')
   \<and> ((rq = LeaveRoom hdr' c'' \<or> rq = GiveUp hdr' c'') \<and> authenticate g hdr' = Inr u'
        \<and> \<not> (\<exists>p \<in> set (members d c''). user_id p = u' \<and> host p) \<longrightarrow>
        host_count (handle g rq d) c' = host_count d c')
   \<and> (authenticate g hdr = Inr u0 \<and> (\<exists>k \<in> set gen. isCodeUnique d0 k) \<longrightarrow>
        (\<exists>k d2. createRoom g gen hdr d0 = Some ((200, JsonString k), d2)))"
proof (intro conjI impI)
  assume a: "createRoom g gen hdr d0 = Some ((200, JsonString c), d1) \<and> members d0 c = []"
  then show "\<exists>u. authenticate g hdr = Inr u
         \<and> members d1 c = [\<lparr>room_code = c, user_id = u, team = None, host = True, in_game = False\<rparr>]"
    using createRoom_host by blast
  then show "host_count d1 c = 1" by (auto simp: host_count_def)
next
  show "host_count (handle g rq d) c' \<le> host_count d c'" by (rule host_count_handle_le)
next
  assume "host_count d c' \<le> 1"
  then show "host_count (handle g rq d) c' \<le> 1"
    using host_count_handle_le [of g rq d c'] by simp
next
  assume "\<not> leaves rq"
  then show "host_count (handle g rq d) c' = host_count d c'" by (rule host_count_handle_same)
next
  assume b: "(rq = LeaveRoom hdr' c'' \<or> rq = GiveUp hdr' c'') \<and> authenticate g hdr' = Inr u'
        \<and> \<not> (\<exists>p \<in> set (members d c''). user_id p = u' \<and> host p)"
  then have "host_count (snd (leaveRoom g hdr' c'' d)) c' = host_count d c'"
    using host_count_leaveRoom_same by blast
  with b show "host_count (handle g rq d) c' = host_count d c'"
    by (auto simp: host_count_giveUp)
next
  assume "authenticate g hdr = Inr u0 \<and> (\<exists>k \<in> set gen. isCodeUnique d0 k)"
  then show "\<exists>k d2. createRoom g gen hdr d0 = Some ((200, JsonString k), d2)"
    using createRoom_returns [of g hdr u0 gen d0] by blast
qed

theorem host_invariant_witness:
  "createRoom demo_tokens [''AB12''] (Some ''Bearer a'') empty_db
      = Some ((200, JsonString ''AB12''), created_room)
   \<and> members empty_db ''AB12'' = []
   \<and> host_count created_room ''AB12'' = 1
   \<and> \<not> leaves (JoinRoom (Some ''Bearer b'') ''AB12'')
   \<and> host_count (handle demo_tokens (JoinRoom (Some ''Bearer b'') ''AB12'') created_room) ''AB12'' = 1
   \<and> authenticate demo_tokens (Some ''Bearer b'') = Inr 2
   \<and> filter (\<lambda>p. user_id p = 2 \<and> host p) (members abc_room ''AB12'') = []
   \<and> host_count abc_room ''AB12'' = 1
   \<and> host_count (handle demo_tokens (LeaveRoom (Some ''Bearer b'') ''AB12'') abc_room) ''AB12'' = 1"
proof -
  have c: "createRoom demo_tokens [''AB12''] (Some ''Bearer a'') empty_db
      = Some ((200, JsonString ''AB12''), created_room)" by code_simp
  have e: "members empty_db ''AB12'' = []" by code_simp
  have b: "authenticate demo_tokens (Some ''Bearer b'') = Inr 2" by code_simp
  have n: "\<not> (\<exists>p \<in> set (members abc_room ''AB12''). user_id p = 2 \<and> host p)" by code_simp
  have h: "host_count abc_room ''AB12'' = 1" by code_simp
  have f: "filter (\<lambda>p. user_id p = 2 \<and> host p) (members abc_room ''AB12'') = []" by code_simp
  from host_invariant [of demo_tokens "[''AB12'']" "Some ''Bearer a''" empty_db "''AB12''"
      created_room "JoinRoom (Some ''Bearer b'') ''AB12''" created_room "''AB12''"
      "Some ''Bearer b''" "''AB12''" 2 1]
    host_invariant [of demo_tokens "[''AB12'']" "Some ''Bearer a''" empty_db "''AB12''"
      created_room "LeaveRoom (Some ''Bearer b'') ''AB12''" abc_room "''AB12''"
      "Some ''Bearer b''" "''AB12''" 2 1]
    c e b n h f
  show ?thesis by simp
qed

text \<open>
  The claim as stated fails when the host leaves: nothing hands the host flag on. In
  \<open>AB12\<close> with creator 1 and joiner 2 there is exactly one host; after user 1 leaves,
  user 2 is a member and the room has no host.
\<close>

theorem host_invariant_counterexample:
  "one_host (room_of ''a'' [''b''])
   \<and> host_left_room = handle demo_tokens (LeaveRoom (Some ''Bearer a'') ''AB12'') (room_of ''a'' [''b''])
   \<and> map user_id (members host_left_room ''AB12'') = [2]
   \<and> host_count host_left_room ''AB12'' = 0
   \<and> \<not> one_host host_left_room"
  by code_simp

section \<open>The key of the deck\<close>

text \<open>
  The ids of \<open>deck\<close> are pairwise different in the empty tables and stay so under every
  request, which is what \<open>drawCard\<close> relies on when it deletes the drawn row by id.
\<close>

lemma deck_ok_empty: "deck_ok empty_db"
  by (simp add: deck_ok_def empty_db_def)

lemma deck_ok_same:
  "deck d' = deck d \<Longrightarrow> next_deck_id d' = next_deck_id d \<Longrightarrow> deck_ok d \<Longrightarrow> deck_ok d'"
  by (simp add: deck_ok_def)

lemma deck_ok_filter:
  "deck d' = filter P (deck d) \<Longrightarrow> next_deck_id d' = next_deck_id d \<Longrightarrow> deck_ok d \<Longrightarrow> deck_ok d'"
  by (auto simp: deck_ok_def list_all_iff distinct_map_filter)

lemma deck_ok_joinRoom: "deck_ok d \<Longrightarrow> deck_ok (snd (joinRoom g hdr c d))"
  by (rule deck_ok_same [of _ d]) (simp_all add: joinRoom_def Let_def split: sum.split)

lemma deck_ok_leaveRoom: "deck_ok d \<Longrightarrow> deck_ok (snd (leaveRoom g hdr c d))"
  by (rule deck_ok_same [of _ d]) (simp_all add: leaveRoom_def split: sum.split)

lemma deck_ok_giveUp: "deck_ok d \<Longrightarrow> deck_ok (snd (giveUp g hdr c d))"
  by (rule deck_ok_same [of _ d]) (simp_all add: giveUp_def Let_def split: sum.split)

lemma deck_ok_endGame: "deck_ok d \<Longrightarrow> deck_ok (snd (endGame rooms_id ident d))"
  by (rule deck_ok_same [of _ d]) (simp_all add: endGame_def Let_def split: option.split)

lemma deck_ok_passTurn: "deck_ok d \<Longrightarrow> deck_ok (snd (passTurn g hdr c d))"
  by (rule deck_ok_same [of _ d])
    (simp_all add: passTurn_def Let_def set_turn_def split: sum.split option.split)

lemma deck_ok_playCard: "deck_ok d \<Longrightarrow> deck_ok (snd (playCard g hdr c n s d))"
  by (rule deck_ok_same [of _ d]) (simp_all add: playCard_def Let_def split: sum.split)

lemma deck_ok_startGame: "deck_ok d \<Longrightarrow> deck_ok (snd (startGame g gen hdr c d))"
proof (cases "authenticate g hdr")
  case (Inl r)
  then show "deck_ok d \<Longrightarrow> ?thesis" by (simp add: startGame_def)
next
  case (Inr u)
  assume "deck_ok d"
  then have "deck_ok (d\<lparr>players := map (\<lambda>p. if room_code p = c then p\<lparr>in_game := True\<rparr> else p) (players d),
           rooms := map (\<lambda>r. if code r = c then r\<lparr>status := ''in_progress''\<rparr> else r) (rooms d)\<rparr>)"
    by (simp add: deck_ok_def)
  then show ?thesis
    by (simp add: startGame_authenticated [OF Inr] deck_ok_insert_deck)
qed

lemma deck_ok_drawCard: "deck_ok d \<Longrightarrow> deck_ok (snd (drawCard g rnd hdr c d))"
proof (cases "authenticate g hdr")
  case (Inl r)
  then show "deck_ok d \<Longrightarrow> ?thesis" by (simp add: drawCard_def)
next
  case (Inr u)
  assume ok: "deck_ok d"
  show ?thesis
  proof (cases "room_deck d c = []")
    case True
    then show ?thesis using ok by (simp add: drawCard_authenticated [OF Inr])
  next
    case False
    let ?k = "room_deck d c ! (rnd mod length (room_deck d c))"
    have "deck (snd (drawCard g rnd hdr c d)) = filter (\<lambda>x. deck_id x \<noteq> deck_id ?k) (deck d)"
      and "next_deck_id (snd (drawCard g rnd hdr c d)) = next_deck_id d"
      using False by (simp_all add: drawCard_authenticated [OF Inr] Let_def)
    then show ?thesis using ok by (rule deck_ok_filter)
  qed
qed

lemma deck_ok_handle: "deck_ok d \<Longrightarrow> deck_ok (handle g rq d)"
  by (cases rq)
    (simp_all add: deck_ok_joinRoom deck_ok_leaveRoom deck_ok_giveUp deck_ok_startGame
      deck_ok_endGame deck_ok_passTurn deck_ok_drawCard deck_ok_playCard)

lemma deck_ok_distinct: "deck_ok d \<Longrightarrow> distinct (map deck_id (deck d))"
  by (simp add: deck_ok_def)

end
